theory Spec2Isabelle
  imports Complex_Main "HOL-Library.Char_ord" "HOL-Library.List_Lexorder"
begin

section \<open>JavaScript numbers\<close>

text \<open>
  A JavaScript number is an IEEE 754 binary64 value. The finite ones are rationals
  \<open>m * 2 ^ k\<close> with \<open>\<bar>m\<bar> < 2 ^ 53\<close>; besides them there are the two infinities and \<open>NaN\<close>.
  The sign of a zero is not tracked: \<open>+0\<close> and \<open>-0\<close> are both \<open>Fin 0\<close>. The two differ
  only as divisors, and the program divides by the constants 60 and 80 and by a count it
  has tested to be non-zero; \<open>Math.max(0, x)\<close>, which ends both hour computations, returns
  \<open>+0\<close> for either zero.
\<close>

datatype jsnum = Fin rat | PInf | NInf | NaN

text \<open>The number of binary digits of a positive integer.\<close>

function bit_length :: "int \<Rightarrow> nat" where
  "bit_length n = (if n \<le> 0 then 0 else Suc (bit_length (n div 2)))"
  by pat_completeness auto
termination
  by (relation "measure nat") auto

declare bit_length.simps [simp del]

text \<open>The binary exponent of a non-zero rational \<open>x\<close>: the \<open>e\<close> with \<open>2 ^ e \<le> \<bar>x\<bar> < 2 ^ (e + 1)\<close>.\<close>

definition expo :: "rat \<Rightarrow> int" where
  "expo x =
     (if 1 \<le> \<bar>x\<bar> then int (bit_length \<lfloor>\<bar>x\<bar>\<rfloor>) - 1
      else - int (bit_length (\<lceil>1 / \<bar>x\<bar>\<rceil> - 1)))"

text \<open>The nearest integer, a tie going to the even one.\<close>

definition round_even :: "rat \<Rightarrow> int" where
  "round_even y =
     (let f = \<lfloor>y\<rfloor>; r = y - of_int f
      in if r < 1 / 2 then f
         else if 1 / 2 < r then f + 1
         else if even f then f else f + 1)"

text \<open>
  Rounding of an exact result to binary64, to nearest with ties to even: 53 significant
  bits in the binade of \<open>x\<close>, the spacing of the subnormal numbers below \<open>2 ^ - 1022\<close>, and
  an infinity when the rounded value reaches \<open>2 ^ 1024\<close>, that is, when \<open>x\<close> lies beyond the
  last binade or rounds up out of it. Every arithmetic operation of the language returns
  the exact result rounded this way.
\<close>

definition fl64 :: "rat \<Rightarrow> jsnum" where
  "fl64 x =
     (if x = 0 then Fin 0
      else
        let e = max (expo x) (- 1022);
            ulp = 2 powi (e - 52);
            m = round_even (x / ulp)
        in if 1023 < e then (if 0 < x then PInf else NInf)
           else if e = 1023 then
             (if 2 ^ 53 \<le> \<bar>m\<bar> then (if 0 < x then PInf else NInf) else Fin (of_int m * ulp))
           else Fin (of_int m * ulp))"

fun jneg :: "jsnum \<Rightarrow> jsnum" where
  "jneg (Fin a) = Fin (- a)"
| "jneg PInf = NInf"
| "jneg NInf = PInf"
| "jneg NaN = NaN"

text \<open>\<open>a + b\<close>.\<close>

fun jadd :: "jsnum \<Rightarrow> jsnum \<Rightarrow> jsnum" where
  "jadd NaN _ = NaN"
| "jadd _ NaN = NaN"
| "jadd PInf NInf = NaN"
| "jadd NInf PInf = NaN"
| "jadd PInf _ = PInf"
| "jadd _ PInf = PInf"
| "jadd NInf _ = NInf"
| "jadd _ NInf = NInf"
| "jadd (Fin a) (Fin b) = fl64 (a + b)"

text \<open>\<open>a - b\<close>.\<close>

definition jsub :: "jsnum \<Rightarrow> jsnum \<Rightarrow> jsnum" where
  "jsub a b = jadd a (jneg b)"

fun jsgn :: "jsnum \<Rightarrow> int" where
  "jsgn (Fin a) = (if a < 0 then - 1 else if a = 0 then 0 else 1)"
| "jsgn PInf = 1"
| "jsgn NInf = - 1"
| "jsgn NaN = 0"

definition inf_of_sign :: "int \<Rightarrow> jsnum" where
  "inf_of_sign s = (if s = 0 then NaN else if 0 < s then PInf else NInf)"

text \<open>\<open>a * b\<close>; an infinity times zero is \<open>NaN\<close>.\<close>

fun jmul :: "jsnum \<Rightarrow> jsnum \<Rightarrow> jsnum" where
  "jmul NaN _ = NaN"
| "jmul _ NaN = NaN"
| "jmul (Fin a) (Fin b) = fl64 (a * b)"
| "jmul a b = inf_of_sign (jsgn a * jsgn b)"

text \<open>\<open>a / b\<close>; a zero divisor is read as \<open>+0\<close> (no zero is a divisor in the program).\<close>

fun jdiv :: "jsnum \<Rightarrow> jsnum \<Rightarrow> jsnum" where
  "jdiv NaN _ = NaN"
| "jdiv _ NaN = NaN"
| "jdiv (Fin a) (Fin b) = (if b = 0 then inf_of_sign (jsgn (Fin a)) else fl64 (a / b))"
| "jdiv (Fin a) _ = Fin 0"
| "jdiv _ PInf = NaN"
| "jdiv _ NInf = NaN"
| "jdiv a (Fin b) = inf_of_sign (jsgn a * (if b < 0 then - 1 else 1))"

text \<open>\<open>Math.max(a, b)\<close> and \<open>Math.min(a, b)\<close>: \<open>NaN\<close> as soon as one argument is \<open>NaN\<close>.\<close>

fun jmax :: "jsnum \<Rightarrow> jsnum \<Rightarrow> jsnum" where
  "jmax NaN _ = NaN"
| "jmax _ NaN = NaN"
| "jmax PInf _ = PInf"
| "jmax _ PInf = PInf"
| "jmax NInf b = b"
| "jmax a NInf = a"
| "jmax (Fin a) (Fin b) = Fin (max a b)"

fun jmin :: "jsnum \<Rightarrow> jsnum \<Rightarrow> jsnum" where
  "jmin NaN _ = NaN"
| "jmin _ NaN = NaN"
| "jmin NInf _ = NInf"
| "jmin _ NInf = NInf"
| "jmin PInf b = b"
| "jmin a PInf = a"
| "jmin (Fin a) (Fin b) = Fin (min a b)"

text \<open>
  Two readings of a number against the rationals, used to state bounds: it is a number
  not below 0, it is a number not above \<open>c\<close>. \<open>NaN\<close> is neither.
\<close>

fun nonneg :: "jsnum \<Rightarrow> bool" where
  "nonneg (Fin a) = (0 \<le> a)"
| "nonneg PInf = True"
| "nonneg NInf = False"
| "nonneg NaN = False"

fun at_most :: "rat \<Rightarrow> jsnum \<Rightarrow> bool" where
  "at_most c (Fin a) = (a \<le> c)"
| "at_most c NInf = True"
| "at_most c PInf = False"
| "at_most c NaN = False"

section \<open>Strings and their conversion to numbers\<close>

text \<open>
  A string is a list of code units; \<open>char\<close> holds the code units below 256, which covers
  every character a time or a number is written with.

  \<open>s.split(':')\<close>: the pieces of \<open>s\<close> between the colons; the empty string gives one
  empty piece.
\<close>

fun split_colon :: "string \<Rightarrow> string list" where
  "split_colon [] = [[]]"
| "split_colon (c # cs) =
     (if c = CHR '':'' then [] # split_colon cs
      else (case split_colon cs of
              [] \<Rightarrow> [[c]]
            | p # ps \<Rightarrow> (c # p) # ps))"

definition is_digit :: "char \<Rightarrow> bool" where
  "is_digit c = (CHR ''0'' \<le> c \<and> c \<le> CHR ''9'')"

definition digit_val :: "char \<Rightarrow> nat" where
  "digit_val c = of_char c - 48"

definition dec_val :: "string \<Rightarrow> nat" where
  "dec_val s = foldl (\<lambda>a c. 10 * a + digit_val c) 0 s"

definition dec_int :: "string \<Rightarrow> int" where
  "dec_int s = foldl (\<lambda>a c. 10 * a + int (digit_val c)) 0 s"

text \<open>
  \<open>Number(s)\<close> follows the grammar of the language for a string converted to a number.
  White space and line terminators (tab, line feed, vertical tab, form feed, carriage
  return, space, no-break space among the code units below 256) are trimmed; what is
  left is empty (the number 0), a binary, octal or hexadecimal integer \<open>0b\<close>, \<open>0o\<close>, \<open>0x\<close>
  without sign, or a decimal literal with an optional sign: \<open>Infinity\<close>, or digits with
  an optional fraction and an optional exponent, at least one digit before the exponent.
  Anything else is \<open>NaN\<close>. The value of a literal is its exact value rounded by \<open>fl64\<close>.
\<close>

definition is_space :: "char \<Rightarrow> bool" where
  "is_space c = (of_char c \<in> {9, 10, 11, 12, 13, 32, 160 :: nat})"

definition trim :: "string \<Rightarrow> string" where
  "trim s = rev (dropWhile is_space (rev (dropWhile is_space s)))"

definition digit_in :: "nat \<Rightarrow> char \<Rightarrow> bool" where
  "digit_in b c =
     (let n = of_char c :: nat
      in (48 \<le> n \<and> n < 48 + min b 10) \<or>
         (10 < b \<and> ((97 \<le> n \<and> n < 87 + b) \<or> (65 \<le> n \<and> n < 55 + b))))"

definition digit_num :: "char \<Rightarrow> nat" where
  "digit_num c =
     (let n = of_char c :: nat
      in if 97 \<le> n then n - 87 else if 65 \<le> n then n - 55 else n - 48)"

definition based_val :: "nat \<Rightarrow> string \<Rightarrow> int" where
  "based_val b s = foldl (\<lambda>a c. int b * a + int (digit_num c)) 0 s"

definition based_literal :: "nat \<Rightarrow> string \<Rightarrow> jsnum option" where
  "based_literal b ds =
     (if list_all (digit_in b) ds then Some (fl64 (of_int (based_val b ds))) else None)"

fun nondecimal :: "string \<Rightarrow> jsnum option" where
  "nondecimal (z # c # d # ds) =
     (if z \<noteq> CHR ''0'' then None
      else if c = CHR ''x'' \<or> c = CHR ''X'' then based_literal 16 (d # ds)
      else if c = CHR ''o'' \<or> c = CHR ''O'' then based_literal 8 (d # ds)
      else if c = CHR ''b'' \<or> c = CHR ''B'' then based_literal 2 (d # ds)
      else None)"
| "nondecimal _ = None"

definition digits_value :: "string \<Rightarrow> int option" where
  "digits_value ds =
     (if ds \<noteq> [] \<and> list_all is_digit ds then Some (dec_int ds) else None)"

fun signed_integer :: "string \<Rightarrow> int option" where
  "signed_integer [] = None"
| "signed_integer (c # r) =
     (if c = CHR ''+'' then digits_value r
      else if c = CHR ''-'' then map_option uminus (digits_value r)
      else digits_value (c # r))"

fun exponent_part :: "string \<Rightarrow> int option" where
  "exponent_part [] = Some 0"
| "exponent_part (c # r) =
     (if c = CHR ''e'' \<or> c = CHR ''E'' then signed_integer r else None)"

text \<open>The digits before the point, the digits after it, and the rest of the literal.\<close>

definition mantissa :: "string \<Rightarrow> string \<Rightarrow> string \<Rightarrow> jsnum" where
  "mantissa ip fp rest =
     (if ip = [] \<and> fp = [] then NaN
      else case exponent_part rest of
             None \<Rightarrow> NaN
           | Some ex \<Rightarrow> fl64 (of_int (dec_int (ip @ fp)) * 10 powi (ex - int (length fp))))"

definition unsigned_decimal :: "string \<Rightarrow> jsnum" where
  "unsigned_decimal s =
     (if s = ''Infinity'' then PInf
      else
        let ip = takeWhile is_digit s
        in case dropWhile is_digit s of
             [] \<Rightarrow> mantissa ip [] []
           | c # r \<Rightarrow>
               if c = CHR ''.'' then mantissa ip (takeWhile is_digit r) (dropWhile is_digit r)
               else mantissa ip [] (c # r))"

fun signed_decimal :: "string \<Rightarrow> jsnum" where
  "signed_decimal [] = NaN"
| "signed_decimal (c # r) =
     (if c = CHR ''+'' then unsigned_decimal r
      else if c = CHR ''-'' then jneg (unsigned_decimal r)
      else unsigned_decimal (c # r))"

definition Number_js :: "string \<Rightarrow> jsnum" where
  "Number_js s =
     (let t = trim s
      in if t = [] then Fin 0
         else case nondecimal t of
                Some v \<Rightarrow> v
              | None \<Rightarrow> signed_decimal t)"

text \<open>
  The \<open>i\<close>-th element of \<open>s.split(':').map(Number)\<close> as a destructuring pattern reads it:
  a missing element is \<open>undefined\<close>, which arithmetic turns into \<open>NaN\<close>.
\<close>

definition component :: "string list \<Rightarrow> nat \<Rightarrow> jsnum" where
  "component ps i = (if i < length ps then Number_js (ps ! i) else NaN)"

text \<open>\<open>String(n)\<close> for a non-negative integer: its decimal digits.\<close>

fun String_nat :: "nat \<Rightarrow> string" where
  "String_nat n =
     (if n < 10 then [char_of (48 + n)]
      else String_nat (n div 10) @ [char_of (48 + n mod 10)])"

declare String_nat.simps [simp del]

text \<open>\<open>s.padStart(2, '0')\<close>.\<close>

definition padStart2 :: "string \<Rightarrow> string" where
  "padStart2 s = replicate (2 - length s) CHR ''0'' @ s"

section \<open>Time arithmetic (App.tsx)\<close>

definition CORE_START :: string where
  "CORE_START = ''10:00''"

definition CORE_END :: string where
  "CORE_END = ''16:00''"

definition TARGET_HOURS :: jsnum where
  "TARGET_HOURS = Fin 80"

text \<open>
  \<open>calculateHours(start, end)\<close>: 0 when one of the two strings is empty; otherwise the
  span between the two parsed times, in hours, and never below 0.
\<close>

definition calculateHours :: "string \<Rightarrow> string \<Rightarrow> jsnum" where
  "calculateHours start end' =
     (if start = [] \<or> end' = [] then Fin 0
      else
        let sH = component (split_colon start) 0;
            sM = component (split_colon start) 1;
            eH = component (split_colon end') 0;
            eM = component (split_colon end') 1;
            diff = jsub (jadd (jmul eH (Fin 60)) eM) (jadd (jmul sH (Fin 60)) sM)
        in jmax (Fin 0) (jdiv diff (Fin 60)))"

text \<open>
  \<open>isCoreOk(start, end)\<close>: both strings non-empty, and compared as strings (code unit by
  code unit, a proper prefix being smaller) with the core window.
\<close>

definition isCoreOk :: "string \<Rightarrow> string \<Rightarrow> bool" where
  "isCoreOk start end' =
     (start \<noteq> [] \<and> end' \<noteq> [] \<and> start \<le> CORE_START \<and> end' \<ge> CORE_END)"

text \<open>
  \<open>getNowTimeStr()\<close>, with the wall clock's hours and minutes as arguments.
\<close>

definition getNowTimeStr :: "nat \<Rightarrow> nat \<Rightarrow> string" where
  "getNowTimeStr hours minutes =
     padStart2 (String_nat hours) @ '':'' @ padStart2 (String_nat minutes)"

text \<open>
  A zero-padded 24-hour time \<open>HH:MM\<close> and the minutes since midnight it denotes. These
  two follow the specification's wording, not a function of the source.
\<close>

definition valid_hhmm :: "string \<Rightarrow> bool" where
  "valid_hhmm s =
     (case s of
        [a, b, c, d, e] \<Rightarrow>
          is_digit a \<and> is_digit b \<and> c = CHR '':'' \<and> is_digit d \<and> is_digit e \<and>
          dec_val [a, b] < 24 \<and> dec_val [d, e] < 60
      | _ \<Rightarrow> False)"

definition total_minutes :: "string \<Rightarrow> nat" where
  "total_minutes s = dec_val (take 2 s) * 60 + dec_val (drop 3 s)"

text \<open>A time field as the tracker produces it: empty, or a valid time.\<close>

definition wf_time :: "string \<Rightarrow> bool" where
  "wf_time s = (s = [] \<or> valid_hhmm s)"

text \<open>
  The raw start-to-end span in hours, as the specification names it: the difference of
  the two parsed times divided by 60, not clamped.
\<close>

definition raw_span :: "string \<Rightarrow> string \<Rightarrow> jsnum" where
  "raw_span s e =
     (let sH = component (split_colon s) 0;
          sM = component (split_colon s) 1;
          eH = component (split_colon e) 0;
          eM = component (split_colon e) 1
      in jdiv (jsub (jadd (jmul eH (Fin 60)) eM) (jadd (jmul sH (Fin 60)) sM)) (Fin 60))"

section \<open>Cycle calendar (App.tsx)\<close>

text \<open>
  A calendar date travels through the program as the string \<open>YYYY-MM-DD\<close>. It is
  represented here by its day number, the days since 1970-01-01: the rendering is
  one-to-one, so the program's \<open>===\<close> on two such strings is equality of day numbers.
  Strings that denote no calendar date (the empty string among them) are not
  represented, and the guard \<open>if (!dateStr)\<close> of \<open>isWeekend\<close> has no branch here.

  A \<open>Date\<close> object is its time value, the milliseconds since 1970-01-01T00:00Z. The
  environment's time zone is the parameter \<open>tz\<close>, the minutes that local time is ahead
  of UTC (540 in Seoul, -300 in New York), taken constant over the days looked at. A
  change of the offset inside that span (a daylight-saving change) is outside the model:
  there \<open>setDate\<close> keeps the local time of day and the instants move by 23 or 25 hours.
\<close>

type_synonym date = int
type_synonym jsdate = int

definition msPerDay :: int where
  "msPerDay = 86400000"

definition local_ms :: "int \<Rightarrow> jsdate \<Rightarrow> int" where
  "local_ms tz t = t + tz * 60000"

text \<open>\<open>new Date(dateStr + 'T00:00:00')\<close>: a date-time without offset is local time.\<close>

definition Date_local :: "int \<Rightarrow> date \<Rightarrow> jsdate" where
  "Date_local tz dateStr = dateStr * msPerDay - tz * 60000"

text \<open>\<open>d.getDay()\<close>: the weekday of the local date, 0 for Sunday; 1970-01-01 was a Thursday.\<close>

definition getDay :: "int \<Rightarrow> jsdate \<Rightarrow> int" where
  "getDay tz t = (local_ms tz t div msPerDay + 4) mod 7"

text \<open>\<open>d.setDate(d.getDate() + k)\<close>: the local date moves by \<open>k\<close> days, the local time of day stays.\<close>

definition addDays :: "jsdate \<Rightarrow> int \<Rightarrow> jsdate" where
  "addDays t k = t + k * msPerDay"

text \<open>\<open>d.setHours(0, 0, 0, 0)\<close>: local midnight of the local date.\<close>

definition setHours0 :: "int \<Rightarrow> jsdate \<Rightarrow> jsdate" where
  "setHours0 tz t = (local_ms tz t div msPerDay) * msPerDay - tz * 60000"

text \<open>\<open>d.toISOString().split('T')[0]\<close>: the date in UTC.\<close>

definition toISODate :: "jsdate \<Rightarrow> date" where
  "toISODate t = t div msPerDay"

definition isWeekend :: "int \<Rightarrow> date \<Rightarrow> bool" where
  "isWeekend tz dateStr =
     (let d = getDay tz (Date_local tz dateStr) in d = 0 \<or> d = 6)"

text \<open>\<open>getMondayOfCurrentCycle()\<close>, with the value of \<open>new Date()\<close> as argument.\<close>

definition getMondayOfCurrentCycle :: "int \<Rightarrow> jsdate \<Rightarrow> date" where
  "getMondayOfCurrentCycle tz now =
     (let day = getDay tz now;
          diff = (if day = 0 then - 6 else 1 - day);
          d = addDays now diff;
          d = setHours0 tz d
      in toISODate d)"

text \<open>
  The loop of \<open>getWeekdaysInCycle\<close>: the first argument after the zone counts the
  iterations left, then come the \<open>Date\<close> object \<open>d\<close> and the array \<open>dates\<close>.
\<close>

fun weekdays_loop :: "int \<Rightarrow> nat \<Rightarrow> jsdate \<Rightarrow> date list \<Rightarrow> date list" where
  "weekdays_loop tz 0 d dates = dates"
| "weekdays_loop tz (Suc k) d dates =
     (let dateStr = toISODate d;
          dates = (if \<not> isWeekend tz dateStr then dates @ [dateStr] else dates)
      in weekdays_loop tz k (addDays d 1) dates)"

definition getWeekdaysInCycle :: "int \<Rightarrow> date \<Rightarrow> date list" where
  "getWeekdaysInCycle tz cycleStart = weekdays_loop tz 14 (Date_local tz cycleStart) []"

text \<open>
  The weekday of a calendar date, 0 for Sunday to 6 for Saturday. This is the calendar's
  own notion, against which the program is measured.
\<close>

definition weekday :: "date \<Rightarrow> int" where
  "weekday d = (d + 4) mod 7"

text \<open>
  Three notions used to state what the calendar functions compute: the UTC date of the
  local midnight that opens \<open>cycleStart\<close>, the local date of an instant, and the
  number of days \<open>getMondayOfCurrentCycle\<close> moves for a given weekday.
\<close>

definition first_day :: "int \<Rightarrow> date \<Rightarrow> date" where
  "first_day tz cycleStart = toISODate (Date_local tz cycleStart)"

definition local_day :: "int \<Rightarrow> jsdate \<Rightarrow> date" where
  "local_day tz t = local_ms tz t div msPerDay"

definition monday_shift :: "int \<Rightarrow> int" where
  "monday_shift day = (if day = 0 then - 6 else 1 - day)"

section \<open>Log reconciliation (App.tsx)\<close>

record WorkLog =
  id' :: string
  date :: date
  start :: string
  end' :: string

text \<open>
  \<open>crypto.randomUUID()\<close> is an effect: the \<open>n\<close>-th call of a run returns \<open>uuid n\<close>, and the
  number of calls made so far is threaded through. \<open>initLogs_map\<close> is the \<open>map\<close> callback
  of \<open>initLogsForCycle\<close> applied along the dates.
\<close>

fun initLogs_map ::
  "(nat \<Rightarrow> string) \<Rightarrow> WorkLog list \<Rightarrow> date list \<Rightarrow> nat \<Rightarrow> WorkLog list \<times> nat" where
  "initLogs_map uuid existing [] n = ([], n)"
| "initLogs_map uuid existing (d # ds) n =
     (case find (\<lambda>l. date l = d) existing of
        Some found \<Rightarrow>
          (let (rest, n') = initLogs_map uuid existing ds n in (found # rest, n'))
      | None \<Rightarrow>
          (let (rest, n') = initLogs_map uuid existing ds (Suc n)
           in (\<lparr>id' = uuid n, date = d, start = [], end' = []\<rparr> # rest, n')))"

definition initLogsForCycle ::
  "int \<Rightarrow> (nat \<Rightarrow> string) \<Rightarrow> date \<Rightarrow> WorkLog list \<Rightarrow> nat \<Rightarrow> WorkLog list \<times> nat" where
  "initLogsForCycle tz uuid cycle existing n =
     initLogs_map uuid existing (getWeekdaysInCycle tz cycle) n"

text \<open>
  The records of a result whose date has no record in \<open>existing\<close>: the ones that
  \<open>initLogsForCycle\<close> had to create.
\<close>

definition synthesized :: "WorkLog list \<Rightarrow> WorkLog list \<Rightarrow> WorkLog list" where
  "synthesized existing out =
     filter (\<lambda>r. find (\<lambda>l. date l = date r) existing = None) out"

text \<open>A sample generator and a sample store: one record inside the cycle, one outside.\<close>

definition ex_uuid :: "nat \<Rightarrow> string" where
  "ex_uuid n = replicate (Suc n) CHR ''u''"

definition ex_logs :: "WorkLog list" where
  "ex_logs =
     [\<lparr>id' = ''a'', date = 19724, start = ''09:00'', end' = []\<rparr>,
      \<lparr>id' = ''b'', date = 19000, start = ''09:00'', end' = ''18:00''\<rparr>]"

section \<open>Mutating operations (App.tsx)\<close>

text \<open>
  The arguments \<open>field: keyof WorkLog\<close> and \<open>value\<close> of \<open>updateLog\<close>, together: one
  constructor for each key of \<open>WorkLog\<close>. The interface calls \<open>updateLog\<close> with the keys
  \<open>date\<close>, \<open>start\<close> and \<open>end\<close> only; the key \<open>id\<close> is in the type and in no call.
\<close>

datatype field_value =
  Set_id string | Set_date date | Set_start string | Set_end string

fun set_field :: "field_value \<Rightarrow> WorkLog \<Rightarrow> WorkLog" where
  "set_field (Set_id v) l = l\<lparr>id' := v\<rparr>"
| "set_field (Set_date v) l = l\<lparr>date := v\<rparr>"
| "set_field (Set_start v) l = l\<lparr>start := v\<rparr>"
| "set_field (Set_end v) l = l\<lparr>end' := v\<rparr>"

definition updateLog :: "string \<Rightarrow> field_value \<Rightarrow> WorkLog list \<Rightarrow> WorkLog list" where
  "updateLog i fv prev = map (\<lambda>l. if id' l = i then set_field fv l else l) prev"

text \<open>\<open>clockIn\<close> and \<open>clockOut\<close>, with the string \<open>now\<close> that \<open>getNowTimeStr()\<close> returned.\<close>

definition clockIn :: "string \<Rightarrow> string \<Rightarrow> WorkLog list \<Rightarrow> WorkLog list" where
  "clockIn i now prev =
     map (\<lambda>l. if id' l = i \<and> start l = [] then l\<lparr>start := now\<rparr> else l) prev"

definition clockOut :: "string \<Rightarrow> string \<Rightarrow> WorkLog list \<Rightarrow> WorkLog list" where
  "clockOut i now prev = map (\<lambda>l. if id' l = i then l\<lparr>end' := now\<rparr> else l) prev"

definition clearLog :: "string \<Rightarrow> WorkLog list \<Rightarrow> WorkLog list" where
  "clearLog i prev = map (\<lambda>l. if id' l = i then l\<lparr>start := [], end' := []\<rparr> else l) prev"

text \<open>
  What an operation addressed to the id \<open>i\<close> leaves alone: the length of the list, the id
  at each position, and the records with another id.
\<close>

definition keeps_structure :: "string \<Rightarrow> WorkLog list \<Rightarrow> WorkLog list \<Rightarrow> bool" where
  "keeps_structure i prev out =
     (length out = length prev \<and> map id' out = map id' prev \<and>
      filter (\<lambda>l. id' l \<noteq> i) out = filter (\<lambda>l. id' l \<noteq> i) prev)"

section \<open>Statistics (App.tsx)\<close>

record Stats =
  total :: jsnum
  remain :: jsnum
  percent :: jsnum
  coreViolations :: nat
  avgDaily :: jsnum
  workedDays :: nat

text \<open>The body of the \<open>useMemo\<close> callback; \<open>reduce\<close> is a fold from the left, starting at 0.\<close>

definition stats :: "WorkLog list \<Rightarrow> Stats" where
  "stats logs =
     (let tot = foldl (\<lambda>acc l. jadd acc (calculateHours (start l) (end' l))) (Fin 0) logs;
          rem = jmax (Fin 0) (jsub TARGET_HOURS tot);
          pct = jmin (Fin 100) (jmul (jdiv tot TARGET_HOURS) (Fin 100));
          viol =
            length (filter (\<lambda>l. start l \<noteq> [] \<and> end' l \<noteq> [] \<and>
                                 \<not> isCoreOk (start l) (end' l)) logs);
          days = length (filter (\<lambda>l. start l \<noteq> [] \<and> end' l \<noteq> []) logs);
          avg = (if days \<noteq> 0 then jdiv tot (Fin (of_nat days)) else Fin 0)
      in \<lparr>total = tot, remain = rem, percent = pct,
          coreViolations = viol, avgDaily = avg, workedDays = days\<rparr>)"

text \<open>
  The sum of a list of hour values, added one after the other from the left, each
  addition rounded; it follows the specification's \<open>\<Sum> calculateHours(r.start, r.end)\<close>.
\<close>

definition jsum :: "jsnum list \<Rightarrow> jsnum" where
  "jsum hs = foldl jadd (Fin 0) hs"

section \<open>The day-type variant (second source file)\<close>




section \<open>Sample data\<close>

definition ex_day :: "WorkLog list" where
  "ex_day =
     [\<lparr>id' = ''a'', date = 19723, start = [], end' = []\<rparr>,
      \<lparr>id' = ''b'', date = 19724, start = ''09:00'', end' = []\<rparr>]"

text \<open>Five days of twenty hours, a single span of ten minutes, a work day of 70 minutes.\<close>

definition ex_long_days :: "WorkLog list" where
  "ex_long_days =
     [\<lparr>id' = ''a'', date = 19723, start = ''00:00'', end' = ''20:00''\<rparr>,
      \<lparr>id' = ''b'', date = 19724, start = ''00:00'', end' = ''20:00''\<rparr>,
      \<lparr>id' = ''c'', date = 19725, start = ''00:00'', end' = ''20:00''\<rparr>,
      \<lparr>id' = ''d'', date = 19726, start = ''00:00'', end' = ''20:00''\<rparr>,
      \<lparr>id' = ''e'', date = 19727, start = ''00:00'', end' = ''20:00''\<rparr>]"

definition ex_ten_minutes :: "WorkLog list" where
  "ex_ten_minutes = [\<lparr>id' = ''a'', date = 19723, start = ''09:00'', end' = ''09:10''\<rparr>]"

text \<open>Five days of 8 h 10 min followed by five days of 7 h 50 min.\<close>

definition ex_rounded :: "WorkLog list" where
  "ex_rounded =
     [\<lparr>id' = ''a'', date = 19723, start = ''08:00'', end' = ''16:10''\<rparr>,
      \<lparr>id' = ''b'', date = 19724, start = ''08:00'', end' = ''16:10''\<rparr>,
      \<lparr>id' = ''c'', date = 19725, start = ''08:00'', end' = ''16:10''\<rparr>,
      \<lparr>id' = ''d'', date = 19726, start = ''08:00'', end' = ''16:10''\<rparr>,
      \<lparr>id' = ''e'', date = 19727, start = ''08:00'', end' = ''16:10''\<rparr>,
      \<lparr>id' = ''f'', date = 19730, start = ''08:00'', end' = ''15:50''\<rparr>,
      \<lparr>id' = ''g'', date = 19731, start = ''08:00'', end' = ''15:50''\<rparr>,
      \<lparr>id' = ''h'', date = 19732, start = ''08:00'', end' = ''15:50''\<rparr>,
      \<lparr>id' = ''i'', date = 19733, start = ''08:00'', end' = ''15:50''\<rparr>,
      \<lparr>id' = ''j'', date = 19734, start = ''08:00'', end' = ''15:50''\<rparr>]"


section \<open>Properties of the numbers\<close>

lemma bit_length_bounds:
  "0 < n \<Longrightarrow> 2 ^ (bit_length n - 1) \<le> n \<and> n < 2 ^ bit_length n"
proof (induction n rule: bit_length.induct)
  case (1 n)
  show ?case
  proof (cases "n div 2 \<le> 0")
    case True
    with "1.prems" have "n = 1" by simp
    then show ?thesis by (simp add: bit_length.simps)
  next
    case False
    then have pos: "0 < n div 2" by simp
    from "1.IH" [OF _ pos] "1.prems"
    have ih: "2 ^ (bit_length (n div 2) - 1) \<le> n div 2" "n div 2 < 2 ^ bit_length (n div 2)"
      by simp_all
    have b: "bit_length n = Suc (bit_length (n div 2))"
      using "1.prems" by (subst bit_length.simps) simp
    have bpos: "0 < bit_length (n div 2)"
      using pos by (subst bit_length.simps) simp
    then obtain k where k: "bit_length (n div 2) = Suc k"
      by (cases "bit_length (n div 2)") simp_all
    from ih show ?thesis
      unfolding b k by (simp; linarith)
  qed
qed

lemma bit_length_pos: "0 < n \<Longrightarrow> 0 < bit_length n"
  by (subst bit_length.simps) simp

lemma expo_bounds:
  assumes "x \<noteq> 0"
  shows "2 powi expo x \<le> \<bar>x\<bar> \<and> \<bar>x\<bar> < 2 powi (expo x + 1)"
proof (cases "1 \<le> \<bar>x\<bar>")
  case True
  define n where "n = \<lfloor>\<bar>x\<bar>\<rfloor>"
  have npos: "0 < n" using True by (simp add: n_def)
  have fl: "of_int n \<le> \<bar>x\<bar>" "\<bar>x\<bar> < of_int n + 1"
    unfolding n_def by linarith+
  from bit_length_bounds [OF npos]
  have b: "2 ^ (bit_length n - 1) \<le> n" "n < 2 ^ bit_length n" by simp_all
  have blpos: "0 < bit_length n" using npos by (rule bit_length_pos)
  have e: "expo x = int (bit_length n) - 1"
    using True by (simp add: expo_def n_def)
  have e': "expo x = int (bit_length n - 1)" "expo x + 1 = int (bit_length n)"
    using blpos by (simp_all add: e)
  have "rat_of_int (2 ^ (bit_length n - 1)) \<le> of_int n"
    using b(1) by (simp only: of_int_le_iff)
  then have lo_r: "(2::rat) ^ (bit_length n - 1) \<le> of_int n" by simp
  have "n + 1 \<le> 2 ^ bit_length n" using b(2) by simp
  then have "rat_of_int (n + 1) \<le> of_int (2 ^ bit_length n)"
    by (simp only: of_int_le_iff)
  then have hi_r: "of_int n + 1 \<le> (2::rat) ^ bit_length n" by simp
  have "(2::rat) ^ (bit_length n - 1) \<le> \<bar>x\<bar>"
    using lo_r fl(1) by (rule order_trans)
  moreover have "\<bar>x\<bar> < (2::rat) ^ bit_length n"
    using fl(2) hi_r by (rule less_le_trans)
  moreover have "(2::rat) powi expo x = 2 ^ (bit_length n - 1)"
    by (simp only: e'(1) power_int_of_nat)
  moreover have "(2::rat) powi (expo x + 1) = 2 ^ bit_length n"
    by (simp only: e'(2) power_int_of_nat)
  ultimately show ?thesis by simp
next
  case False
  define y where "y = 1 / \<bar>x\<bar>"
  have ax: "0 < \<bar>x\<bar>" "\<bar>x\<bar> < 1" using assms False by simp_all
  have y1: "1 < y" using ax by (simp add: y_def)
  define m where "m = \<lceil>y\<rceil> - 1"
  have cy: "2 \<le> \<lceil>y\<rceil>" using y1 by linarith
  have mpos: "0 < m" using cy by (simp add: m_def)
  have my: "of_int m < y" "y \<le> of_int m + 1"
    unfolding m_def by (simp_all; linarith)+
  from bit_length_bounds [OF mpos]
  have b: "2 ^ (bit_length m - 1) \<le> m" "m < 2 ^ bit_length m" by simp_all
  have blpos: "0 < bit_length m" using mpos by (rule bit_length_pos)
  have e: "expo x = - int (bit_length m)"
    using False by (simp add: expo_def m_def y_def)
  have "rat_of_int (2 ^ (bit_length m - 1)) \<le> of_int m"
    using b(1) by (simp only: of_int_le_iff)
  then have lo: "(2::rat) ^ (bit_length m - 1) \<le> of_int m" by simp
  have "m + 1 \<le> 2 ^ bit_length m" using b(2) by simp
  then have "rat_of_int (m + 1) \<le> of_int (2 ^ bit_length m)"
    by (simp only: of_int_le_iff)
  then have hi': "of_int m + 1 \<le> (2::rat) ^ bit_length m" by simp
  have yhi: "y \<le> (2::rat) ^ bit_length m" using my(2) hi' by (rule order_trans)
  have ylo: "(2::rat) ^ (bit_length m - 1) < y" using lo my(1) by (rule le_less_trans)
  have p1: "(2::rat) powi expo x = 1 / 2 ^ bit_length m"
    by (simp add: e power_int_minus_divide)
  have "expo x + 1 = - int (bit_length m - 1)" using blpos by (simp add: e)
  then have p2: "(2::rat) powi (expo x + 1) = 1 / 2 ^ (bit_length m - 1)"
    by (simp add: power_int_minus_divide)
  have xy: "\<bar>x\<bar> = 1 / y" by (simp add: y_def)
  have "1 / (2::rat) ^ bit_length m \<le> 1 / y"
    using yhi y1 by (intro divide_left_mono) simp_all
  moreover have "1 / y < 1 / (2::rat) ^ (bit_length m - 1)"
    using ylo y1 by (intro divide_strict_left_mono) simp_all
  ultimately show ?thesis
    unfolding p1 p2 xy by simp
qed

lemma expo_unique:
  assumes "2 powi e \<le> \<bar>x\<bar>" "\<bar>x\<bar> < 2 powi (e + 1)"
  shows "expo x = e"
proof -
  have "0 < (2::rat) powi e" by simp
  with assms(1) have "0 < \<bar>x\<bar>" by linarith
  then have nz: "x \<noteq> 0" by simp
  from expo_bounds [OF nz]
  have b: "2 powi expo x \<le> \<bar>x\<bar>" "\<bar>x\<bar> < 2 powi (expo x + 1)" by simp_all
  have "(2::rat) powi e < 2 powi (expo x + 1)" using assms(1) b(2) by simp
  then have "e < expo x + 1"
    by (metis linorder_not_less one_le_numeral power_int_increasing)
  moreover have "(2::rat) powi expo x < 2 powi (e + 1)" using assms(2) b(1) by simp
  then have "expo x < e + 1"
    by (metis linorder_not_less one_le_numeral power_int_increasing)
  ultimately show ?thesis by simp
qed

lemma round_even_near:
  assumes "\<bar>y - of_int m\<bar> < 1 / 2"
  shows "round_even y = m"
proof -
  have lo: "of_int m - 1 / 2 < y" and hi: "y < of_int m + 1 / 2"
    using assms by linarith+
  have "\<lfloor>y\<rfloor> = m \<or> \<lfloor>y\<rfloor> = m - 1"
  proof (cases "of_int m \<le> y")
    case True
    then have "\<lfloor>y\<rfloor> = m" using hi by (intro floor_unique) simp_all
    then show ?thesis ..
  next
    case False
    then have "\<lfloor>y\<rfloor> = m - 1" using lo by (intro floor_unique) simp_all
    then show ?thesis ..
  qed
  then show ?thesis
  proof
    assume f: "\<lfloor>y\<rfloor> = m"
    have "y - of_int m < 1 / 2" using hi by simp
    then show ?thesis by (simp add: round_even_def Let_def f)
  next
    assume f: "\<lfloor>y\<rfloor> = m - 1"
    have "1 / 2 < y - of_int (m - 1)" using lo by simp
    then show ?thesis by (simp add: round_even_def Let_def f)
  qed
qed

lemma round_even_int: "round_even (of_int m) = m"
  by (rule round_even_near) simp

lemma round_even_nonneg: "0 \<le> y \<Longrightarrow> 0 \<le> round_even y"
  by (simp add: round_even_def Let_def)

lemma round_even_nonpos: "y \<le> 0 \<Longrightarrow> round_even y \<le> 0"
proof -
  assume y: "y \<le> 0"
  have "\<lfloor>y\<rfloor> \<le> - 1" if "0 < y - of_int \<lfloor>y\<rfloor>"
    using that y by linarith
  moreover have "\<lfloor>y\<rfloor> \<le> 0" using y by linarith
  ultimately show ?thesis
    by (auto simp add: round_even_def Let_def)
qed

lemma fl64_certificate:
  assumes lo: "(2::rat) powi e \<le> \<bar>x\<bar>" and hi: "\<bar>x\<bar> < (2::rat) powi (e + 1)"
    and normal: "- 1022 \<le> e" "e < 1023"
    and near: "\<bar>x / 2 powi (e - 52) - of_int m\<bar> < 1 / 2"
  shows "fl64 x = Fin (of_int m * 2 powi (e - 52))"
proof -
  have "0 < (2::rat) powi e" by simp
  with lo have "0 < \<bar>x\<bar>" by linarith
  then have nz: "x \<noteq> 0" by simp
  have ex: "expo x = e" using lo hi by (rule expo_unique)
  have r: "round_even (x / 2 powi (e - 52)) = m" using near by (rule round_even_near)
  show ?thesis
    using nz normal by (simp add: fl64_def ex r Let_def max_def)
qed

lemma fl64_int:
  assumes "\<bar>n\<bar> < 2 ^ 53"
  shows "fl64 (of_int n) = Fin (of_int n)"
proof (cases "n = 0")
  case True
  then show ?thesis by (simp add: fl64_def)
next
  case False
  define x :: rat where "x = of_int n"
  define e where "e = expo x"
  have nz: "x \<noteq> 0" using False by (simp add: x_def)
  from expo_bounds [OF nz]
  have b: "2 powi e \<le> \<bar>x\<bar>" "\<bar>x\<bar> < 2 powi (e + 1)" by (simp_all add: e_def)
  have ax: "1 \<le> \<bar>x\<bar>" "\<bar>x\<bar> < 2 ^ 53"
  proof -
    have "1 \<le> \<bar>n\<bar>" using False by simp
    then show "1 \<le> \<bar>x\<bar>" unfolding x_def by (metis of_int_1_le_iff of_int_abs)
    have "rat_of_int \<bar>n\<bar> < of_int (2 ^ 53)" using assms by (simp only: of_int_less_iff)
    then show "\<bar>x\<bar> < 2 ^ 53" by (simp add: x_def)
  qed
  have "(2::rat) powi 0 < 2 powi (e + 1)" using ax(1) b(2) by simp
  then have e0: "0 \<le> e"
    by (smt (verit) linorder_not_less one_le_numeral power_int_increasing)
  have "(2::rat) powi e < 2 powi 53" using ax(2) b(1) by simp
  then have e52: "e \<le> 52"
    by (smt (verit) linorder_not_less one_le_numeral power_int_increasing)
  define k where "k = nat (52 - e)"
  have ek: "e - 52 = - int k" using e52 by (simp add: k_def)
  have ulp: "(2::rat) powi (e - 52) = 1 / 2 ^ k"
    by (simp add: ek power_int_minus_divide)
  have q: "x / 2 powi (e - 52) = of_int (n * 2 ^ k)"
    by (simp add: ulp x_def)
  have undo: "of_int (n * 2 ^ k) * (2::rat) powi (e - 52) = x"
    by (simp add: ulp x_def)
  have "fl64 x = Fin (of_int (n * 2 ^ k) * 2 powi (e - 52))"
  proof (rule fl64_certificate [OF b])
    show "- 1022 \<le> e" using e0 by simp
    show "e < 1023" using e52 by simp
    show "\<bar>x / 2 powi (e - 52) - of_int (n * 2 ^ k)\<bar> < 1 / 2" by (simp add: q)
  qed
  then show ?thesis by (simp only: undo) (simp add: x_def)
qed

lemma fl64_nat: "n < 2 ^ 53 \<Longrightarrow> fl64 (of_nat n) = Fin (of_nat n)"
  using fl64_int [of "int n"] by simp

lemma fl64_cases:
  obtains (zero) "q = 0" "fl64 q = Fin 0"
  | (finite) k where "q \<noteq> 0" "fl64 q = Fin (of_int (round_even (q / 2 powi k)) * 2 powi k)"
  | (pinf) "0 < q" "fl64 q = PInf"
  | (ninf) "q < 0" "fl64 q = NInf"
proof (cases "q = 0")
  case True
  then show ?thesis by (intro zero) (simp_all add: fl64_def)
next
  case False
  define e where "e = max (expo q) (- 1022)"
  define k where "k = e - 52"
  define m where "m = round_even (q / 2 powi k)"
  define over where "over \<longleftrightarrow> 1023 < e \<or> (e = 1023 \<and> 2 ^ 53 \<le> \<bar>m\<bar>)"
  have "fl64 q =
      (if 1023 < e then (if 0 < q then PInf else NInf)
       else if e = 1023 then
         (if 2 ^ 53 \<le> \<bar>m\<bar> then (if 0 < q then PInf else NInf) else Fin (of_int m * 2 powi k))
       else Fin (of_int m * 2 powi k))"
    using False by (simp only: fl64_def Let_def e_def k_def m_def if_False)
  then have f: "fl64 q = (if over then (if 0 < q then PInf else NInf) else Fin (of_int m * 2 powi k))"
    by (simp add: over_def)
  show ?thesis
  proof (cases over)
    case big: True
    show ?thesis
    proof (cases "0 < q")
      case True
      then show ?thesis using big f by (intro pinf) simp_all
    next
      case neg: False
      with False have "q < 0" by simp
      then show ?thesis using big f by (intro ninf) simp_all
    qed
  next
    case small: False
    show ?thesis
      using False small f by (intro finite [of k]) (simp_all add: m_def)
  qed
qed

lemma fl64_nonneg: "0 \<le> q \<Longrightarrow> nonneg (fl64 q)"
proof -
  assume q: "0 \<le> q"
  show ?thesis
  proof (cases q rule: fl64_cases)
    case zero
    then show ?thesis by simp
  next
    case (finite k)
    have "0 \<le> round_even (q / 2 powi k)"
      using q by (intro round_even_nonneg) simp
    then have "0 \<le> rat_of_int (round_even (q / 2 powi k)) * 2 powi k" by simp
    then show ?thesis by (simp only: finite nonneg.simps)
  next
    case pinf
    then show ?thesis by simp
  next
    case ninf
    with q show ?thesis by simp
  qed
qed

lemma fl64_nonpos: "q \<le> 0 \<Longrightarrow> jmax (Fin 0) (fl64 q) = Fin 0"
proof -
  assume q: "q \<le> 0"
  show ?thesis
  proof (cases q rule: fl64_cases)
    case zero
    then show ?thesis by simp
  next
    case (finite k)
    have "round_even (q / 2 powi k) \<le> 0"
      using q by (intro round_even_nonpos) (simp add: divide_nonpos_pos)
    then have "rat_of_int (round_even (q / 2 powi k)) * 2 powi k \<le> 0"
      by (simp add: mult_nonpos_nonneg)
    then show ?thesis by (simp only: finite jmax.simps max_def) simp
  next
    case pinf
    with q show ?thesis by simp
  next
    case ninf
    then show ?thesis by simp
  qed
qed

lemma fl64_not_NaN: "fl64 q \<noteq> NaN"
  by (cases q rule: fl64_cases) simp_all

lemma jmax_nonneg: "nonneg x \<Longrightarrow> jmax (Fin 0) x = x"
  by (cases x) (simp_all add: max_def)


lemma nonneg_jadd: "nonneg a \<Longrightarrow> nonneg b \<Longrightarrow> nonneg (jadd a b)"
  by (cases a; cases b) (simp_all add: fl64_nonneg)

lemma nonneg_jmax0: "x \<noteq> NaN \<Longrightarrow> nonneg (jmax (Fin 0) x)"
  by (cases x) simp_all

lemma jsub_not_NaN: "nonneg t \<Longrightarrow> jsub (Fin c) t \<noteq> NaN"
  by (cases t) (simp_all add: jsub_def fl64_not_NaN)

lemma nonneg_jdiv: "nonneg t \<Longrightarrow> 0 < c \<Longrightarrow> nonneg (jdiv t (Fin c))"
  by (cases t) (simp_all add: fl64_nonneg inf_of_sign_def)

lemma nonneg_jmul: "nonneg t \<Longrightarrow> 0 < c \<Longrightarrow> nonneg (jmul t (Fin c))"
  by (cases t) (simp_all add: fl64_nonneg inf_of_sign_def)

lemma jmin_cap: "nonneg x \<Longrightarrow> 0 \<le> c \<Longrightarrow> nonneg (jmin (Fin c) x) \<and> at_most c (jmin (Fin c) x)"
  by (cases x) simp_all

lemma jmin_at_most: "jmin (Fin c) x = NaN \<or> at_most c (jmin (Fin c) x)"
  by (cases x) simp_all

lemma jmax0_nonneg: "jmax (Fin 0) x = NaN \<or> nonneg (jmax (Fin 0) x)"
  by (cases x) simp_all

section \<open>Properties of the time arithmetic\<close>

lemma is_digit_bounds: "is_digit c \<Longrightarrow> 48 \<le> (of_char c :: nat) \<and> (of_char c :: nat) \<le> 57"
  by (simp add: is_digit_def less_eq_char_def)

lemma is_digit_not_colon: "is_digit c \<Longrightarrow> c \<noteq> CHR '':''"
  by (auto simp: is_digit_def less_eq_char_def)

lemma is_digit_not_space: "is_digit c \<Longrightarrow> \<not> is_space c"
  by (auto simp: is_space_def dest!: is_digit_bounds)

lemma is_digit_not_sign: "is_digit c \<Longrightarrow> c \<noteq> CHR ''+'' \<and> c \<noteq> CHR ''-''"
  by (auto simp: is_digit_def less_eq_char_def)

lemma dec_val_digits2: "is_digit a \<Longrightarrow> is_digit b \<Longrightarrow> dec_val [a, b] \<le> 99"
  by (auto simp: dec_val_def digit_val_def dest!: is_digit_bounds)

lemma Number_js_digits2:
  assumes "is_digit a" "is_digit b"
  shows "Number_js [a, b] = Fin (of_nat (dec_val [a, b]))"
proof -
  have t: "trim [a, b] = [a, b]"
    using assms by (simp add: trim_def is_digit_not_space)
  have "dec_val [a, b] < 2 ^ 53"
    using dec_val_digits2 [OF assms] by simp
  then have f: "fl64 (of_nat (dec_val [a, b])) = Fin (of_nat (dec_val [a, b]))"
    by (rule fl64_nat)
  have i: "dec_int [a, b] = int (dec_val [a, b])"
    by (simp add: dec_int_def dec_val_def)
  have u: "unsigned_decimal [a, b] = Fin (of_nat (dec_val [a, b]))"
    using assms f by (simp add: unsigned_decimal_def mantissa_def i)
  show ?thesis
    using assms(1) by (simp add: Number_js_def t u is_digit_not_sign)
qed

lemma valid_hhmmE:
  assumes "valid_hhmm s"
  obtains a b d e where "s = [a, b, CHR '':'', d, e]"
    "is_digit a" "is_digit b" "is_digit d" "is_digit e"
  using assms unfolding valid_hhmm_def
  by (auto split: list.splits)

lemma split_colon_hhmm:
  "is_digit a \<Longrightarrow> is_digit b \<Longrightarrow> is_digit d \<Longrightarrow> is_digit e \<Longrightarrow>
   split_colon [a, b, CHR '':'', d, e] = [[a, b], [d, e]]"
  by (simp add: is_digit_not_colon)

text \<open>Hours times 60 plus minutes is computed without rounding on two-digit fields.\<close>

lemma minutes_exact:
  assumes "h \<le> 99" "m \<le> 99"
  shows "jadd (jmul (Fin (of_nat h)) (Fin 60)) (Fin (of_nat m)) = Fin (of_nat (h * 60 + m))"
proof -
  have "h * 60 < 2 ^ 53" using assms by simp
  then have "fl64 (of_nat (h * 60)) = Fin (of_nat (h * 60))" by (rule fl64_nat)
  then have a: "fl64 (rat_of_nat h * 60) = Fin (rat_of_nat h * 60)" by simp
  have "h * 60 + m < 2 ^ 53" using assms by simp
  then have "fl64 (of_nat (h * 60 + m)) = Fin (of_nat (h * 60 + m))" by (rule fl64_nat)
  then have b: "fl64 (rat_of_nat h * 60 + rat_of_nat m) = Fin (rat_of_nat h * 60 + rat_of_nat m)"
    by simp
  show ?thesis by (simp add: a b)
qed

lemma diff_exact:
  assumes "x \<le> 6039" "y \<le> 6039"
  shows "jsub (Fin (of_nat x)) (Fin (of_nat y)) = Fin (of_nat x - of_nat y)"
proof -
  have "\<bar>int x - int y\<bar> < 2 ^ 53" using assms by simp
  then have "fl64 (of_int (int x - int y)) = Fin (of_int (int x - int y))" by (rule fl64_int)
  then show ?thesis by (simp add: jsub_def)
qed

lemma raw_span_valid:
  assumes "valid_hhmm s" "valid_hhmm e"
  shows "raw_span s e = fl64 ((of_nat (total_minutes e) - of_nat (total_minutes s)) / 60)"
proof -
  from assms(1) obtain a b c d where s: "s = [a, b, CHR '':'', c, d]"
    and ds: "is_digit a" "is_digit b" "is_digit c" "is_digit d"
    by (rule valid_hhmmE)
  from assms(2) obtain a' b' c' d' where e: "e = [a', b', CHR '':'', c', d']"
    and de: "is_digit a'" "is_digit b'" "is_digit c'" "is_digit d'"
    by (rule valid_hhmmE)
  have ss: "split_colon s = [[a, b], [c, d]]"
    unfolding s using ds by (rule split_colon_hhmm)
  have se: "split_colon e = [[a', b'], [c', d']]"
    unfolding e using de by (rule split_colon_hhmm)
  have tm: "total_minutes s = dec_val [a, b] * 60 + dec_val [c, d]"
    "total_minutes e = dec_val [a', b'] * 60 + dec_val [c', d']"
    by (simp_all add: total_minutes_def s e)
  have bs: "dec_val [a, b] \<le> 99" "dec_val [c, d] \<le> 99"
    "dec_val [a', b'] \<le> 99" "dec_val [c', d'] \<le> 99"
    using ds de by (simp_all only: dec_val_digits2)
  have comps: "component (split_colon s) 0 = Fin (of_nat (dec_val [a, b]))"
    "component (split_colon s) 1 = Fin (of_nat (dec_val [c, d]))"
    "component (split_colon e) 0 = Fin (of_nat (dec_val [a', b']))"
    "component (split_colon e) 1 = Fin (of_nat (dec_val [c', d']))"
    using ds de by (simp_all add: component_def ss se Number_js_digits2)
  have ms: "jadd (jmul (Fin (of_nat (dec_val [a, b]))) (Fin 60)) (Fin (of_nat (dec_val [c, d]))) =
      Fin (of_nat (total_minutes s))"
    unfolding tm using bs(1,2) by (rule minutes_exact)
  have me: "jadd (jmul (Fin (of_nat (dec_val [a', b']))) (Fin 60)) (Fin (of_nat (dec_val [c', d']))) =
      Fin (of_nat (total_minutes e))"
    unfolding tm using bs(3,4) by (rule minutes_exact)
  have bound: "total_minutes s \<le> 6039" "total_minutes e \<le> 6039"
    using bs by (simp_all add: tm)
  have d: "jsub (Fin (of_nat (total_minutes e))) (Fin (of_nat (total_minutes s))) =
      Fin (of_nat (total_minutes e) - of_nat (total_minutes s))"
    using bound(2,1) by (rule diff_exact)
  show ?thesis
    by (simp only: raw_span_def Let_def comps ms me d) simp
qed

lemma calculateHours_raw_span:
  "calculateHours s e = (if s = [] \<or> e = [] then Fin 0 else jmax (Fin 0) (raw_span s e))"
  by (simp add: calculateHours_def raw_span_def Let_def)

lemma valid_hhmm_nonempty: "valid_hhmm s \<Longrightarrow> s \<noteq> []"
  by (auto simp: valid_hhmm_def)

lemma calculateHours_valid:
  assumes "valid_hhmm s" "valid_hhmm e"
  shows "calculateHours s e =
    (if total_minutes s \<le> total_minutes e
     then fl64 ((of_nat (total_minutes e) - of_nat (total_minutes s)) / 60)
     else Fin 0)"
proof (cases "total_minutes s \<le> total_minutes e")
  case True
  then have "(0::rat) \<le> (of_nat (total_minutes e) - of_nat (total_minutes s)) / 60" by simp
  then have "nonneg (fl64 ((of_nat (total_minutes e) - of_nat (total_minutes s)) / 60))"
    by (rule fl64_nonneg)
  then show ?thesis
    using assms True
    by (simp add: calculateHours_raw_span raw_span_valid valid_hhmm_nonempty jmax_nonneg)
next
  case False
  then have "(of_nat (total_minutes e) - of_nat (total_minutes s)) / 60 \<le> (0::rat)" by simp
  then have "jmax (Fin 0) (fl64 ((of_nat (total_minutes e) - of_nat (total_minutes s)) / 60)) = Fin 0"
    by (rule fl64_nonpos)
  then show ?thesis
    using assms False
    by (simp add: calculateHours_raw_span raw_span_valid valid_hhmm_nonempty)
qed

lemma calculateHours_nonneg:
  assumes "wf_time s" "wf_time e"
  shows "nonneg (calculateHours s e)"
proof (cases "s = [] \<or> e = []")
  case True
  then show ?thesis by (auto simp: calculateHours_def)
next
  case False
  with assms have v: "valid_hhmm s" "valid_hhmm e" by (auto simp: wf_time_def)
  show ?thesis
    by (simp add: calculateHours_valid [OF v] fl64_nonneg)
qed

lemmas hhmm_eval = valid_hhmm_def total_minutes_def is_digit_def less_eq_char_def
  dec_val_def digit_val_def





text \<open>
  Claim C2. \<open>isCoreOk\<close> is false when one of its strings is empty, and otherwise true
  exactly when the start is at most \<open>10:00\<close> and the end at least \<open>16:00\<close> in the
  lexicographic order of strings; the bounds are included.
\<close>

theorem isCoreOk_spec:
  "isCoreOk [] e = False \<and>
   isCoreOk s [] = False \<and>
   isCoreOk s e = (s \<noteq> [] \<and> e \<noteq> [] \<and> s \<le> ''10:00'' \<and> ''16:00'' \<le> e) \<and>
   isCoreOk ''10:00'' ''16:00'' = True \<and>
   isCoreOk ''10:01'' ''16:00'' = False \<and>
   isCoreOk ''09:59'' ''16:01'' = True"
  by (simp add: isCoreOk_def CORE_START_def CORE_END_def)

section \<open>Properties of the cycle calendar\<close>

lemma toISODate_addDays: "toISODate (addDays d k) = toISODate d + k"
  by (simp add: toISODate_def addDays_def msPerDay_def)

lemma getDay_Date_local: "getDay tz (Date_local tz x) = weekday x"
  by (simp add: getDay_def Date_local_def local_ms_def weekday_def msPerDay_def)

lemma isWeekend_weekday: "isWeekend tz x = (weekday x = 0 \<or> weekday x = 6)"
  by (simp add: isWeekend_def getDay_Date_local Let_def)

lemma weekdays_loop_filter:
  "weekdays_loop tz k d acc =
     acc @ filter (\<lambda>x. \<not> isWeekend tz x) (map (\<lambda>i. toISODate d + int i) [0..<k])"
proof (induction k arbitrary: d acc)
  case 0
  show ?case by simp
next
  case (Suc k)
  have shift: "map (\<lambda>i. toISODate d + int i) [0..<Suc k] =
      toISODate d # map (\<lambda>i. toISODate (addDays d 1) + int i) [0..<k]"
    by (simp add: upt_conv_Cons map_Suc_upt [symmetric] toISODate_addDays
        del: upt_Suc)
  show ?case
    unfolding shift by (simp add: Suc.IH Let_def)
qed

lemma getWeekdaysInCycle_filter:
  "getWeekdaysInCycle tz c =
     filter (\<lambda>x. weekday x \<noteq> 0 \<and> weekday x \<noteq> 6)
       (map (\<lambda>i. first_day tz c + int i) [0..<14])"
  by (simp add: getWeekdaysInCycle_def weekdays_loop_filter isWeekend_weekday first_day_def)

lemma first_day_west:
  assumes "- 1440 < tz" "tz \<le> 0"
  shows "first_day tz c = c"
proof -
  have "c * 86400000 - tz * 60000 = (- tz * 60000) + c * 86400000" by simp
  moreover have "(- tz * 60000 + c * 86400000) div 86400000 = (- tz * 60000) div 86400000 + c"
    by simp
  moreover have "(- tz * 60000) div 86400000 = 0"
    using assms by (intro div_pos_pos_trivial) simp_all
  ultimately show ?thesis
    by (simp add: first_day_def toISODate_def Date_local_def msPerDay_def)
qed

lemma first_day_east:
  assumes "0 < tz" "tz \<le> 1440"
  shows "first_day tz c = c - 1"
proof -
  have "c * 86400000 - tz * 60000 = (86400000 - tz * 60000) + (c - 1) * 86400000"
    by (simp add: algebra_simps)
  moreover have "((86400000 - tz * 60000) + (c - 1) * 86400000) div 86400000 =
      (86400000 - tz * 60000) div 86400000 + (c - 1)"
    by simp
  moreover have "(86400000 - tz * 60000) div 86400000 = 0"
    using assms by (intro div_pos_pos_trivial) simp_all
  ultimately show ?thesis
    by (simp add: first_day_def toISODate_def Date_local_def msPerDay_def)
qed

lemma upt_14: "[0..<14] = [0, 1, 2, 3, 4, 5, 6, 7, 8, 9, 10, 11, 12, 13]"
  by (simp add: upt_rec)

lemma weekday_add: "weekday (c + k) = (weekday c + k) mod 7"
  by (simp add: weekday_def mod_simps algebra_simps)

lemma weekday_range: "weekday c \<in> {0, 1, 2, 3, 4, 5, 6}"
proof -
  have "0 \<le> weekday c" "weekday c < 7" by (simp_all add: weekday_def)
  then show ?thesis by auto
qed

lemma weekdays_in_14:
  "length (filter (\<lambda>x. weekday x \<noteq> 0 \<and> weekday x \<noteq> 6)
     (map (\<lambda>i. c + int i) [0..<14])) = 10"
proof -
  consider "weekday c = 0" | "weekday c = 1" | "weekday c = 2" | "weekday c = 3"
    | "weekday c = 4" | "weekday c = 5" | "weekday c = 6"
    using weekday_range [of c] by blast
  then show ?thesis
    by cases (simp_all add: upt_14 weekday_add)
qed

lemma getWeekdaysInCycle_length: "length (getWeekdaysInCycle tz c) = 10"
  by (simp only: getWeekdaysInCycle_filter weekdays_in_14)

lemma sorted_days: "sorted_wrt (<) (map (\<lambda>i. c + int i) [0..<k])"
  by (simp add: sorted_wrt_map sorted_wrt_iff_nth_less)

lemma getWeekdaysInCycle_sorted: "sorted_wrt (<) (getWeekdaysInCycle tz c)"
  unfolding getWeekdaysInCycle_filter by (rule sorted_wrt_filter) (rule sorted_days)


lemma getWeekdaysInCycle_no_weekend:
  "x \<in> set (getWeekdaysInCycle tz c) \<Longrightarrow> weekday x \<noteq> 0 \<and> weekday x \<noteq> 6"
  by (simp add: getWeekdaysInCycle_filter)

lemma getWeekdaysInCycle_window:
  "set (getWeekdaysInCycle tz c) \<subseteq> {first_day tz c .. first_day tz c + 13}"
  by (auto simp add: getWeekdaysInCycle_filter)

lemma getDay_local_day: "getDay tz t = weekday (local_day tz t)"
  by (simp add: getDay_def weekday_def local_day_def)

lemma local_day_addDays: "local_day tz (addDays t k) = local_day tz t + k"
  by (simp add: local_day_def local_ms_def addDays_def msPerDay_def algebra_simps)

lemma setHours0_Date_local: "setHours0 tz t = Date_local tz (local_day tz t)"
  by (simp add: setHours0_def Date_local_def local_day_def)

lemma getMondayOfCurrentCycle_first_day:
  "getMondayOfCurrentCycle tz now =
     first_day tz (local_day tz now + monday_shift (weekday (local_day tz now)))"
  by (simp add: getMondayOfCurrentCycle_def Let_def getDay_local_day setHours0_Date_local
      local_day_addDays first_day_def monday_shift_def)

lemma weekday_diff: "weekday (c - k) = (weekday c - k) mod 7"
  by (simp add: weekday_def mod_simps algebra_simps)

lemma weekday_monday_shift: "weekday (d + monday_shift (weekday d)) = 1"
proof -
  consider "weekday d = 0" | "weekday d = 1" | "weekday d = 2" | "weekday d = 3"
    | "weekday d = 4" | "weekday d = 5" | "weekday d = 6"
    using weekday_range [of d] by blast
  then show ?thesis
    by cases (simp_all add: weekday_add weekday_diff monday_shift_def)
qed

lemma getMondayOfCurrentCycle_west:
  assumes "- 1440 < tz" "tz \<le> 0"
  shows "weekday (getMondayOfCurrentCycle tz now) = 1"
  by (simp add: getMondayOfCurrentCycle_first_day first_day_west [OF assms] weekday_monday_shift)

lemma getMondayOfCurrentCycle_east:
  assumes "0 < tz" "tz \<le> 1440"
  shows "weekday (getMondayOfCurrentCycle tz now) = 0"
proof -
  have "weekday (d + monday_shift (weekday d) - 1) = 0" for d
    by (simp add: weekday_diff [of "d + monday_shift (weekday d)" 1] weekday_monday_shift)
  then show ?thesis
    by (simp add: getMondayOfCurrentCycle_first_day first_day_east [OF assms])
qed

lemma getWeekdaysInCycle_west:
  assumes "- 1440 < tz" "tz \<le> 0"
  shows "set (getWeekdaysInCycle tz c) \<subseteq> {c .. c + 13}"
  using getWeekdaysInCycle_window [of tz c] by (simp add: first_day_west [OF assms])

text \<open>
  Claim C3. With local time ahead of UTC the window of \<open>getWeekdaysInCycle\<close> opens one
  day early. In Seoul, for the Tuesday 2024-01-02 (day 19724), the result starts with
  Monday 2024-01-01 (day 19723), which lies before the cycle start, and the Monday
  2024-01-15 (day 19737), the fourteenth day of the window, is left out.
\<close>

theorem getWeekdaysInCycle_seoul:
  "getWeekdaysInCycle 540 19724 =
     [19723, 19724, 19725, 19726, 19727, 19730, 19731, 19732, 19733, 19734] \<and>
   \<not> set (getWeekdaysInCycle 540 19724) \<subseteq> {19724 .. 19724 + 13} \<and>
   weekday 19737 = 1"
  by code_simp

text \<open>
  Claim C8. With local time ahead of UTC the date that \<open>getMondayOfCurrentCycle\<close>
  returns is the day before the Monday it moved to. In Seoul, on Wednesday 2024-01-03
  at noon (03:00 UTC) the weekday read is 3 and the result is day 19722, 2023-12-31,
  a Sunday.
\<close>

theorem getMondayOfCurrentCycle_seoul:
  "getDay 540 (19725 * 86400000 + 10800000) = 3 \<and>
   getMondayOfCurrentCycle 540 (19725 * 86400000 + 10800000) = 19722 \<and>
   weekday 19722 = 0"
  by code_simp

section \<open>Properties of the log reconciliation\<close>

lemma find_date: "find (\<lambda>l. date l = d) ex = Some f \<Longrightarrow> date f = d \<and> f \<in> set ex"
  by (auto simp: find_Some_iff)

lemma initLogs_map_fst:
  "fst (initLogs_map u ex (d # ds) n) =
     (case find (\<lambda>l. date l = d) ex of
        Some found \<Rightarrow> found # fst (initLogs_map u ex ds n)
      | None \<Rightarrow> \<lparr>id' = u n, date = d, start = [], end' = []\<rparr> #
                 fst (initLogs_map u ex ds (Suc n)))"
  by (simp split: option.splits prod.splits)

lemma initLogs_map_snd:
  "snd (initLogs_map u ex (d # ds) n) =
     (case find (\<lambda>l. date l = d) ex of
        Some found \<Rightarrow> snd (initLogs_map u ex ds n)
      | None \<Rightarrow> snd (initLogs_map u ex ds (Suc n)))"
  by (simp split: option.splits prod.splits)

lemma initLogs_map_dates: "map date (fst (initLogs_map u ex ds n)) = ds"
  by (induction ds arbitrary: n)
    (auto simp: initLogs_map_fst simp del: initLogs_map.simps(2)
       split: option.splits dest: find_date)

lemma initLogs_map_entries:
  "list_all2
     (\<lambda>d r. case find (\<lambda>l. date l = d) ex of
               Some found \<Rightarrow> r = found
             | None \<Rightarrow> date r = d \<and> start r = [] \<and> end' r = [])
     ds (fst (initLogs_map u ex ds n))"
proof (induction ds arbitrary: n)
  case Nil
  show ?case by simp
next
  case (Cons d ds)
  show ?case
    using Cons.IH [of n] Cons.IH [of "Suc n"]
    by (cases "find (\<lambda>l. date l = d) ex")
      (simp_all add: initLogs_map_fst del: initLogs_map.simps(2))
qed

lemma initLogs_map_counter:
  "n \<le> snd (initLogs_map u ex ds n) \<and> snd (initLogs_map u ex ds n) \<le> n + length ds"
proof (induction ds arbitrary: n)
  case Nil
  show ?case by simp
next
  case (Cons d ds)
  show ?case
    using Cons.IH [of n] Cons.IH [of "Suc n"]
    by (cases "find (\<lambda>l. date l = d) ex")
      (simp_all add: initLogs_map_snd del: initLogs_map.simps(2))
qed

lemma initLogs_map_synthesized:
  "map id' (synthesized ex (fst (initLogs_map u ex ds n))) =
     map u [n..<snd (initLogs_map u ex ds n)]"
proof (induction ds arbitrary: n)
  case Nil
  show ?case by (simp add: synthesized_def)
next
  case (Cons d ds)
  show ?case
  proof (cases "find (\<lambda>l. date l = d) ex")
    case None
    have le: "Suc n \<le> snd (initLogs_map u ex ds (Suc n))"
      using initLogs_map_counter [of "Suc n" u ex ds] by simp
    have "[n..<snd (initLogs_map u ex ds (Suc n))] =
        n # [Suc n..<snd (initLogs_map u ex ds (Suc n))]"
      using le by (simp add: upt_conv_Cons)
    then show ?thesis
      using None Cons.IH [of "Suc n"]
      by (simp add: synthesized_def initLogs_map_fst initLogs_map_snd
          del: initLogs_map.simps(2))
  next
    case (Some f)
    then have "date f = d" by (auto dest: find_date)
    then show ?thesis
      using Some Cons.IH [of n]
      by (simp add: synthesized_def initLogs_map_fst initLogs_map_snd
          del: initLogs_map.simps(2))
  qed
qed

lemma initLogs_map_dropped:
  "r \<in> set (fst (initLogs_map u ex ds n)) \<Longrightarrow> date r \<in> set ds"
  using initLogs_map_dates [of u ex ds n] by (metis image_eqI list.set_map)




text \<open>
  Claim C4. Provided the ten identifiers the generator may hand out next are pairwise
  different and none of them is the id of an existing record, \<open>initLogsForCycle\<close>
  returns one record for each date of \<open>getWeekdaysInCycle\<close>, in that (increasing)
  order: the first existing record with that date, unchanged, when there is one, and
  otherwise a record with that date and empty \<open>start\<close> and \<open>end\<close>. The ids of the
  created records are pairwise different and differ from every existing id, and an
  existing record whose date is not a weekday of the cycle is not in the result.
\<close>

theorem initLogsForCycle_spec:
  assumes fresh: "distinct (map uuid [n..<n + 10])"
    and unused: "\<forall>k\<in>{n..<n + 10}. uuid k \<notin> id' ` set existing"
  shows "list_all2
       (\<lambda>d r. case find (\<lambda>l. date l = d) existing of
                 Some found \<Rightarrow> r = found
               | None \<Rightarrow> date r = d \<and> start r = [] \<and> end' r = [])
       (getWeekdaysInCycle tz cycle) (fst (initLogsForCycle tz uuid cycle existing n)) \<and>
     map date (fst (initLogsForCycle tz uuid cycle existing n)) = getWeekdaysInCycle tz cycle \<and>
     sorted_wrt (<) (map date (fst (initLogsForCycle tz uuid cycle existing n))) \<and>
     distinct (map id' (synthesized existing (fst (initLogsForCycle tz uuid cycle existing n)))) \<and>
     (\<forall>r\<in>set (synthesized existing (fst (initLogsForCycle tz uuid cycle existing n))).
        id' r \<notin> id' ` set existing) \<and>
     (\<forall>l\<in>set existing. date l \<notin> set (getWeekdaysInCycle tz cycle) \<longrightarrow>
        l \<notin> set (fst (initLogsForCycle tz uuid cycle existing n)))"
proof -
  let ?ds = "getWeekdaysInCycle tz cycle"
  let ?res = "initLogs_map uuid existing ?ds n"
  have res: "initLogsForCycle tz uuid cycle existing n = ?res"
    by (simp add: initLogsForCycle_def)
  have bound: "n \<le> snd ?res" "snd ?res \<le> n + 10"
    using initLogs_map_counter [of n uuid existing ?ds]
    by (simp_all add: getWeekdaysInCycle_length)
  have ids: "map id' (synthesized existing (fst ?res)) = map uuid [n..<snd ?res]"
    by (rule initLogs_map_synthesized)
  have split: "[n..<n + 10] = [n..<snd ?res] @ [snd ?res..<n + 10]"
    using bound by (metis le_Suc_ex upt_add_eq_append)
  have d: "distinct (map uuid [n..<snd ?res])"
    using fresh unfolding split by simp
  have f: "id' r \<notin> id' ` set existing"
    if "r \<in> set (synthesized existing (fst ?res))" for r
  proof -
    from that have "id' r \<in> set (map id' (synthesized existing (fst ?res)))" by simp
    then have "id' r \<in> uuid ` {n..<snd ?res}" by (simp add: ids)
    then obtain k where "id' r = uuid k" "n \<le> k" "k < snd ?res" by auto
    with bound unused show ?thesis by auto
  qed
  have g: "l \<notin> set (fst ?res)" if "date l \<notin> set ?ds" for l
    using that initLogs_map_dropped [of l uuid existing ?ds n] by blast
  show ?thesis
    unfolding res
    using initLogs_map_entries [of existing ?ds uuid n]
      initLogs_map_dates [of uuid existing ?ds n]
      getWeekdaysInCycle_sorted [of tz cycle] d f g
    by (simp add: ids)
qed

theorem initLogsForCycle_spec_witness:
  "distinct (map ex_uuid [0..<0 + 10]) \<and>
   map date (fst (initLogsForCycle 0 ex_uuid 19723 ex_logs 0)) = getWeekdaysInCycle 0 19723 \<and>
   distinct (map id' (synthesized ex_logs (fst (initLogsForCycle 0 ex_uuid 19723 ex_logs 0)))) \<and>
   ex_logs ! 1 \<notin> set (fst (initLogsForCycle 0 ex_uuid 19723 ex_logs 0))"
proof -
  have inj: "inj_on ex_uuid A" for A
    by (auto simp: inj_on_def ex_uuid_def)
  have h1: "distinct (map ex_uuid [0..<0 + 10])"
    by (simp only: distinct_map distinct_upt inj simp_thms)
  have h2: "\<forall>k\<in>{0..<0 + 10}. ex_uuid k \<notin> id' ` set ex_logs"
    by (simp add: ex_uuid_def ex_logs_def)
  have mem: "ex_logs ! 1 \<in> set ex_logs"
    by (simp add: ex_logs_def)
  have out: "date (ex_logs ! 1) \<notin> set (getWeekdaysInCycle 0 19723)"
    using getWeekdaysInCycle_west [of 0 19723] by (auto simp: ex_logs_def)
  from initLogsForCycle_spec [OF h1 h2, of 0 19723] h1 mem out show ?thesis
    by blast
qed


section \<open>Properties of the statistics\<close>

lemma foldl_jadd_map:
  "foldl (\<lambda>acc l. jadd acc (f l)) a logs = foldl jadd a (map f logs)"
  by (induction logs arbitrary: a) simp_all

lemma nonneg_foldl:
  "nonneg a \<Longrightarrow> \<forall>h\<in>set hs. nonneg h \<Longrightarrow> nonneg (foldl jadd a hs)"
  by (induction hs arbitrary: a) (simp_all add: nonneg_jadd)

lemma total_stats:
  "total (stats logs) = jsum (map (\<lambda>r. calculateHours (start r) (end' r)) logs)"
  by (simp add: stats_def jsum_def Let_def foldl_jadd_map [symmetric])

lemma remain_stats:
  "remain (stats logs) = jmax (Fin 0) (jsub (Fin 80) (total (stats logs)))"
  by (simp add: stats_def Let_def TARGET_HOURS_def)

lemma percent_stats:
  "percent (stats logs) = jmin (Fin 100) (jmul (jdiv (total (stats logs)) (Fin 80)) (Fin 100))"
  by (simp add: stats_def Let_def TARGET_HOURS_def)

lemma workedDays_stats:
  "workedDays (stats logs) = length (filter (\<lambda>r. start r \<noteq> [] \<and> end' r \<noteq> []) logs)"
  by (simp add: stats_def Let_def)

lemma coreViolations_stats:
  "coreViolations (stats logs) =
     length (filter (\<lambda>r. start r \<noteq> [] \<and> end' r \<noteq> [] \<and> \<not> isCoreOk (start r) (end' r)) logs)"
  by (simp add: stats_def Let_def)

lemma avgDaily_stats:
  "avgDaily (stats logs) =
     (if 0 < workedDays (stats logs)
      then jdiv (total (stats logs)) (Fin (of_nat (workedDays (stats logs))))
      else Fin 0)"
  by (simp add: stats_def Let_def)

lemma total_nonneg:
  assumes "\<forall>l\<in>set logs. wf_time (start l) \<and> wf_time (end' l)"
  shows "nonneg (total (stats logs))"
  unfolding total_stats jsum_def
  using assms by (intro nonneg_foldl) (simp_all add: calculateHours_nonneg)

text \<open>
  Claim C6, amended. Every number is computed in binary64, each operation rounded:
  \<open>total\<close> is the sum of the hours of the records, added one after the other from the
  left; \<open>remain\<close> is \<open>max(0, 80 - total)\<close>; \<open>percent\<close> is \<open>min(100, (total / 80) * 100)\<close>, the
  division first; \<open>coreViolations\<close> counts the records with both times present that fail
  \<open>isCoreOk\<close>; \<open>workedDays\<close> counts the records with both times present; \<open>avgDaily\<close> is
  \<open>total / workedDays\<close> when \<open>workedDays\<close> is positive and 0 otherwise. \<open>remain\<close> is never a
  negative number and \<open>percent\<close> never a number above 100. When every time field is empty
  or a valid time, \<open>total\<close>, \<open>remain\<close>, \<open>percent\<close> and \<open>avgDaily\<close> are numbers not below 0.
\<close>

theorem stats_spec:
  "total (stats logs) = jsum (map (\<lambda>r. calculateHours (start r) (end' r)) logs) \<and>
   remain (stats logs) = jmax (Fin 0) (jsub (Fin 80) (total (stats logs))) \<and>
   percent (stats logs) =
     jmin (Fin 100) (jmul (jdiv (total (stats logs)) (Fin 80)) (Fin 100)) \<and>
   coreViolations (stats logs) =
     length (filter (\<lambda>r. start r \<noteq> [] \<and> end' r \<noteq> [] \<and>
                          \<not> isCoreOk (start r) (end' r)) logs) \<and>
   workedDays (stats logs) =
     length (filter (\<lambda>r. start r \<noteq> [] \<and> end' r \<noteq> []) logs) \<and>
   avgDaily (stats logs) =
     (if 0 < workedDays (stats logs)
      then jdiv (total (stats logs)) (Fin (of_nat (workedDays (stats logs))))
      else Fin 0) \<and>
   (remain (stats logs) = NaN \<or> nonneg (remain (stats logs))) \<and>
   (percent (stats logs) = NaN \<or> at_most 100 (percent (stats logs))) \<and>
   ((\<forall>l\<in>set logs. wf_time (start l) \<and> wf_time (end' l)) \<longrightarrow>
      nonneg (total (stats logs)) \<and> nonneg (remain (stats logs)) \<and>
      nonneg (percent (stats logs)) \<and> at_most 100 (percent (stats logs)) \<and>
      nonneg (avgDaily (stats logs)))"
proof (intro conjI impI)
  show "total (stats logs) = jsum (map (\<lambda>r. calculateHours (start r) (end' r)) logs)"
    by (rule total_stats)
  show "remain (stats logs) = jmax (Fin 0) (jsub (Fin 80) (total (stats logs)))"
    by (rule remain_stats)
  show "percent (stats logs) =
      jmin (Fin 100) (jmul (jdiv (total (stats logs)) (Fin 80)) (Fin 100))"
    by (rule percent_stats)
  show "coreViolations (stats logs) =
      length (filter (\<lambda>r. start r \<noteq> [] \<and> end' r \<noteq> [] \<and>
                           \<not> isCoreOk (start r) (end' r)) logs)"
    by (rule coreViolations_stats)
  show "workedDays (stats logs) =
      length (filter (\<lambda>r. start r \<noteq> [] \<and> end' r \<noteq> []) logs)"
    by (rule workedDays_stats)
  show "avgDaily (stats logs) =
      (if 0 < workedDays (stats logs)
       then jdiv (total (stats logs)) (Fin (of_nat (workedDays (stats logs))))
       else Fin 0)"
    by (rule avgDaily_stats)
  show "remain (stats logs) = NaN \<or> nonneg (remain (stats logs))"
    unfolding remain_stats by (rule jmax0_nonneg)
  show "percent (stats logs) = NaN \<or> at_most 100 (percent (stats logs))"
    unfolding percent_stats by (rule jmin_at_most)
next
  assume wf: "\<forall>l\<in>set logs. wf_time (start l) \<and> wf_time (end' l)"
  then have t: "nonneg (total (stats logs))" by (rule total_nonneg)
  then show "nonneg (total (stats logs))" .
  show "nonneg (remain (stats logs))"
    unfolding remain_stats using t by (intro nonneg_jmax0 jsub_not_NaN)
  have p: "nonneg (jmul (jdiv (total (stats logs)) (Fin 80)) (Fin 100))"
    using t by (intro nonneg_jmul nonneg_jdiv) simp_all
  from jmin_cap [OF p, of 100]
  show "nonneg (percent (stats logs))" "at_most 100 (percent (stats logs))"
    by (simp_all add: percent_stats)
  show "nonneg (avgDaily (stats logs))"
    unfolding avgDaily_stats using t by (simp add: nonneg_jdiv)
qed

text \<open>Values of the one-record list with a ten-minute span.\<close>

lemma total_ten_minutes:
  "total (stats ex_ten_minutes) = Fin (6004799503160661 / 36028797018963968)"
proof -
  have v: "valid_hhmm ''09:00''" "valid_hhmm ''09:10''"
    by (simp_all add: hhmm_eval)
  have m: "total_minutes ''09:00'' = 540" "total_minutes ''09:10'' = 550"
    by (simp_all add: hhmm_eval)
  have r: "fl64 (1 / 6) = Fin (6004799503160661 / 36028797018963968)"
    using fl64_certificate [of "- 3" "1 / 6" 6004799503160661] by simp
  have h: "calculateHours ''09:00'' ''09:10'' = Fin (6004799503160661 / 36028797018963968)"
    by (simp add: calculateHours_valid [OF v] m r)
  have i: "fl64 (6004799503160661 / 36028797018963968) =
      Fin (6004799503160661 / 36028797018963968)"
    using fl64_certificate [of "- 3" "6004799503160661 / 36028797018963968" 6004799503160661]
    by simp
  show ?thesis
    by (simp add: total_stats jsum_def ex_ten_minutes_def h i)
qed

text \<open>
  Claim C6, as stated, fails on the order of the operations in \<open>percent\<close>. For one record
  from 09:00 to 09:10 the total is the binary64 number nearest to 1/6; the program's
  \<open>(total / 80) * 100\<close> is 0.20833333333333334, while \<open>100 * total / 80\<close> is
  0.20833333333333331 when computed in binary64, and the exact value of that fraction is
  not a binary64 number at all.
\<close>

theorem stats_percent_order:
  "total (stats ex_ten_minutes) = Fin (6004799503160661 / 36028797018963968) \<and>
   percent (stats ex_ten_minutes) = Fin (7505999378950827 / 36028797018963968) \<and>
   jmin (Fin 100) (jdiv (jmul (Fin 100) (total (stats ex_ten_minutes))) (Fin 80)) =
     Fin (3752999689475413 / 18014398509481984) \<and>
   percent (stats ex_ten_minutes) \<noteq>
     jmin (Fin 100) (jdiv (jmul (Fin 100) (total (stats ex_ten_minutes))) (Fin 80)) \<and>
   percent (stats ex_ten_minutes) \<noteq>
     Fin (100 * (6004799503160661 / 36028797018963968) / 80)"
proof -
  have a: "jdiv (Fin (6004799503160661 / 36028797018963968)) (Fin 80) =
      Fin (4803839602528529 / 2305843009213693952)"
    using fl64_certificate [of "- 9" "6004799503160661 / 36028797018963968 / 80" 4803839602528529]
    by simp
  have b: "jmul (Fin (4803839602528529 / 2305843009213693952)) (Fin 100) =
      Fin (7505999378950827 / 36028797018963968)"
    using fl64_certificate [of "- 3" "4803839602528529 / 2305843009213693952 * 100" 7505999378950827]
    by simp
  have c: "jmul (Fin 100) (Fin (6004799503160661 / 36028797018963968)) =
      Fin (2345624805922133 / 140737488355328)"
    using fl64_certificate [of 4 "100 * (6004799503160661 / 36028797018963968)" 4691249611844266]
    by simp
  have d: "jdiv (Fin (2345624805922133 / 140737488355328)) (Fin 80) =
      Fin (3752999689475413 / 18014398509481984)"
    using fl64_certificate [of "- 3" "2345624805922133 / 140737488355328 / 80" 7505999378950826]
    by simp
  have p: "percent (stats ex_ten_minutes) = Fin (7505999378950827 / 36028797018963968)"
    by (simp only: percent_stats total_ten_minutes a b) simp
  have q: "jmin (Fin 100) (jdiv (jmul (Fin 100) (total (stats ex_ten_minutes))) (Fin 80)) =
      Fin (3752999689475413 / 18014398509481984)"
    by (simp only: total_ten_minutes c d) simp
  show ?thesis
  proof (intro conjI)
    show "total (stats ex_ten_minutes) = Fin (6004799503160661 / 36028797018963968)"
      by (rule total_ten_minutes)
    show "percent (stats ex_ten_minutes) = Fin (7505999378950827 / 36028797018963968)"
      by (rule p)
    show "jmin (Fin 100) (jdiv (jmul (Fin 100) (total (stats ex_ten_minutes))) (Fin 80)) =
        Fin (3752999689475413 / 18014398509481984)"
      by (rule q)
    show "percent (stats ex_ten_minutes) \<noteq>
        jmin (Fin 100) (jdiv (jmul (Fin 100) (total (stats ex_ten_minutes))) (Fin 80))"
      unfolding p q by simp
    show "percent (stats ex_ten_minutes) \<noteq>
        Fin (100 * (6004799503160661 / 36028797018963968) / 80)"
      unfolding p by simp
  qed
qed

theorem stats_spec_witness:
  "list_all (\<lambda>l. wf_time (start l) \<and> wf_time (end' l)) ex_long_days \<and>
   nonneg (total (stats ex_long_days)) \<and>
   at_most 100 (percent (stats ex_long_days)) \<and>
   stats ex_long_days =
     \<lparr>total = Fin 100, remain = Fin 0, percent = Fin 100,
        coreViolations = 0, avgDaily = Fin 20, workedDays = 5\<rparr>"
proof -
  have v: "valid_hhmm ''00:00''" "valid_hhmm ''20:00''"
    by (simp_all add: hhmm_eval)
  have m: "total_minutes ''00:00'' = 0" "total_minutes ''20:00'' = 1200"
    by (simp_all add: hhmm_eval)
  have w: "list_all (\<lambda>l. wf_time (start l) \<and> wf_time (end' l)) ex_long_days"
    by (simp add: ex_long_days_def wf_time_def v)
  then have h: "\<forall>l\<in>set ex_long_days. wf_time (start l) \<and> wf_time (end' l)"
    by (simp add: list_all_iff)
  have ints: "fl64 20 = Fin 20" "fl64 40 = Fin 40" "fl64 60 = Fin 60" "fl64 80 = Fin 80"
    "fl64 100 = Fin 100" "fl64 125 = Fin 125" "fl64 (- 20) = Fin (- 20)"
    using fl64_int [of 20] fl64_int [of 40] fl64_int [of 60] fl64_int [of 80]
      fl64_int [of 100] fl64_int [of 125] fl64_int [of "- 20"]
    by simp_all
  have q: "fl64 (5 / 4) = Fin (5 / 4)"
    using fl64_certificate [of 0 "5 / 4" 5629499534213120] by simp
  have c: "calculateHours ''00:00'' ''20:00'' = Fin 20"
    by (simp add: calculateHours_valid [OF v] m ints)
  have core: "isCoreOk ''00:00'' ''20:00''"
    by (simp add: isCoreOk_def CORE_START_def CORE_END_def)
  have s: "stats ex_long_days =
     \<lparr>total = Fin 100, remain = Fin 0, percent = Fin 100,
        coreViolations = 0, avgDaily = Fin 20, workedDays = 5\<rparr>"
    by (simp add: stats_def ex_long_days_def Let_def TARGET_HOURS_def c core jsub_def ints q)
  have "nonneg (total (stats ex_long_days)) \<and> nonneg (remain (stats ex_long_days)) \<and>
      nonneg (percent (stats ex_long_days)) \<and> at_most 100 (percent (stats ex_long_days)) \<and>
      nonneg (avgDaily (stats ex_long_days))"
    by (rule stats_spec [of ex_long_days, THEN conjunct2, THEN conjunct2, THEN conjunct2,
          THEN conjunct2, THEN conjunct2, THEN conjunct2, THEN conjunct2, THEN conjunct2,
          THEN mp, OF h])
  then have "nonneg (total (stats ex_long_days))" "at_most 100 (percent (stats ex_long_days))"
    by simp_all
  with w s show ?thesis by (intro conjI)
qed

text \<open>
  Rounding in the sum: the ten records of \<open>ex_rounded\<close> span 80 hours in all, and the
  program's total is 79.99999999999999, its \<open>remain\<close> \<open>2 ^ - 46\<close> and its \<open>percent\<close>
  99.99999999999997.
\<close>

lemma stats_rounded:
  "stats ex_rounded =
     \<lparr>total = Fin (5629499534213119 / 70368744177664),
        remain = Fin (1 / 70368744177664),
        percent = Fin (3518437208883199 / 35184372088832),
        coreViolations = 5,
        avgDaily = Fin (4503599627370495 / 562949953421312),
        workedDays = 10\<rparr>"
  by code_simp

section \<open>Properties of the mutating operations\<close>

lemma getNowTimeStr_nonempty: "getNowTimeStr h m \<noteq> []"
  by (simp add: getNowTimeStr_def)

lemma clockIn_twice:
  "now1 \<noteq> [] \<Longrightarrow> clockIn i now2 (clockIn i now1 prev) = clockIn i now1 prev"
  by (simp add: clockIn_def)

lemma clockIn_nth:
  "k < length prev \<Longrightarrow>
   clockIn i now prev ! k =
     (if id' (prev ! k) = i \<and> start (prev ! k) = [] then (prev ! k)\<lparr>start := now\<rparr>
      else prev ! k)"
  by (simp add: clockIn_def)

text \<open>
  Claim C7. \<open>clockIn\<close> keeps the length of the list; the record at each position gets
  \<open>now\<close> as its \<open>start\<close> when its id is the given one and its \<open>start\<close> is empty, and
  is left as it is otherwise. A second \<open>clockIn\<close> on the same id changes nothing, so
  the \<open>start\<close> of the first call stays.
\<close>

theorem clockIn_spec:
  "length (clockIn i now prev) = length prev \<and>
   (\<forall>k<length prev.
      clockIn i now prev ! k =
        (if id' (prev ! k) = i \<and> start (prev ! k) = [] then (prev ! k)\<lparr>start := now\<rparr>
         else prev ! k)) \<and>
   clockIn i (getNowTimeStr h2 m2) (clockIn i (getNowTimeStr h1 m1) prev) =
     clockIn i (getNowTimeStr h1 m1) prev"
  using clockIn_twice [OF getNowTimeStr_nonempty]
  by (simp add: clockIn_nth) (simp add: clockIn_def)

theorem clockIn_spec_witness:
  "(0::nat) < length ex_day \<and> (1::nat) < length ex_day \<and>
   clockIn ''a'' ''08:30'' ex_day ! 0 = \<lparr>id' = ''a'', date = 19723, start = ''08:30'', end' = []\<rparr> \<and>
   clockIn ''a'' ''08:30'' ex_day ! 1 = ex_day ! 1 \<and>
   clockIn ''b'' ''08:30'' ex_day = ex_day"
proof -
  have len: "(0::nat) < length ex_day" "(1::nat) < length ex_day"
    by (simp_all add: ex_day_def)
  have "clockIn ''b'' ''08:30'' ex_day = ex_day"
    by (simp add: clockIn_def ex_day_def)
  moreover from clockIn_spec [of "''a''" "''08:30''" ex_day] len
  have "clockIn ''a'' ''08:30'' ex_day ! 0 =
      (if id' (ex_day ! 0) = ''a'' \<and> start (ex_day ! 0) = []
       then (ex_day ! 0)\<lparr>start := ''08:30''\<rparr> else ex_day ! 0)"
    "clockIn ''a'' ''08:30'' ex_day ! 1 =
      (if id' (ex_day ! 1) = ''a'' \<and> start (ex_day ! 1) = []
       then (ex_day ! 1)\<lparr>start := ''08:30''\<rparr> else ex_day ! 1)"
    by blast+
  ultimately show ?thesis
    using len by (simp add: ex_day_def)
qed

lemma keeps_structure_map:
  assumes "\<And>l. id' (f l) = id' l"
  shows "keeps_structure i prev (map (\<lambda>l. if id' l = i then f l else l) prev)"
  unfolding keeps_structure_def
  by (induction prev) (simp_all add: assms)

lemma clockIn_structure: "keeps_structure i prev (clockIn i now prev)"
  unfolding keeps_structure_def clockIn_def
  by (induction prev) simp_all

text \<open>
  Claim C10. The per-record operations, \<open>updateLog\<close> on the field \<open>date\<close>, \<open>start\<close> or
  \<open>end\<close>, \<open>clockIn\<close>, \<open>clockOut\<close> and \<open>clearLog\<close>, keep the length of the list, the id at
  every position and every record with another id; besides, each of them leaves the
  fields it does not address as they were at every position.
\<close>

theorem mutations_keep_structure:
  "keeps_structure i prev (updateLog i (Set_date d) prev) \<and>
   keeps_structure i prev (updateLog i (Set_start v) prev) \<and>
   keeps_structure i prev (updateLog i (Set_end v) prev) \<and>
   keeps_structure i prev (clockIn i now prev) \<and>
   keeps_structure i prev (clockOut i now prev) \<and>
   keeps_structure i prev (clearLog i prev) \<and>
   map start (updateLog i (Set_date d) prev) = map start prev \<and>
   map end' (updateLog i (Set_date d) prev) = map end' prev \<and>
   map date (updateLog i (Set_start v) prev) = map date prev \<and>
   map end' (updateLog i (Set_start v) prev) = map end' prev \<and>
   map date (updateLog i (Set_end v) prev) = map date prev \<and>
   map start (updateLog i (Set_end v) prev) = map start prev \<and>
   map date (clockIn i now prev) = map date prev \<and>
   map end' (clockIn i now prev) = map end' prev \<and>
   map date (clockOut i now prev) = map date prev \<and>
   map start (clockOut i now prev) = map start prev \<and>
   map date (clearLog i prev) = map date prev"
proof (intro conjI)
  show "keeps_structure i prev (updateLog i (Set_date d) prev)"
    unfolding updateLog_def by (rule keeps_structure_map) simp
  show "keeps_structure i prev (updateLog i (Set_start v) prev)"
    unfolding updateLog_def by (rule keeps_structure_map) simp
  show "keeps_structure i prev (updateLog i (Set_end v) prev)"
    unfolding updateLog_def by (rule keeps_structure_map) simp
  show "keeps_structure i prev (clockIn i now prev)"
    by (rule clockIn_structure)
  show "keeps_structure i prev (clockOut i now prev)"
    unfolding clockOut_def by (rule keeps_structure_map) simp
  show "keeps_structure i prev (clearLog i prev)"
    unfolding clearLog_def by (rule keeps_structure_map) simp
qed (simp_all add: updateLog_def clockIn_def clockOut_def clearLog_def)

section \<open>Properties of the day-type variant\<close>






end
